theory Spec2Isabelle
  imports Main "HOL-Library.Char_ord" "HOL-Library.List_Lexorder" "HOL-Library.Word"
begin

section \<open>The NFS log scanner (package nfs)\<close>

text \<open>
  A shallow embedding of the Go package \<open>nfs\<close>: the scanner that walks the tree
  \<open>root/source/date/workflow/{info.log,error.log,run.log}\<close>, classifies each log file,
  derives one status per workflow directory and searches the logs for a keyword.

  Go strings are byte sequences and \<open>string\<close> is a list of 8-bit characters, so the
  order on strings (theories \<open>Char_ord\<close> and \<open>List_Lexorder\<close>) is Go's bytewise
  order \<open><\<close>. A Go function returning \<open>(v, error)\<close> with exactly one of them meaningful
  is a value of \<open>error + 'a\<close>; where the source returns both (\<open>detectErrors\<close>,
  \<open>GetLogContent\<close>) the model returns the pair, with \<open>None\<close> for a nil error.
\<close>

subsection \<open>Errors and the operating system\<close>

datatype error =
    ErrNotExist
  | ErrPermission
  | ErrIO
  | ErrTooLong
  | Wrapped string error
  | PanicSliceBounds

text \<open>\<open>os.IsNotExist\<close>: true of the error a missing path gives, of no other one.\<close>

fun IsNotExist :: "error \<Rightarrow> bool" where
  "IsNotExist ErrNotExist = True"
| "IsNotExist _ = False"

record FileInfo =
  fi_Size :: "64 word"
  fi_ModTime :: int

text \<open>
  What the scanner reads from its environment. \<open>os_ReadDir\<close> gives the entries of a
  directory as (name, is a directory); \<open>os_Stat\<close> the size and modification time of a
  path; \<open>os_Open\<close> the bytes that reading the opened file delivers, together with the
  error that ends the reading (\<open>None\<close> for a clean end of file); \<open>time_Today\<close> is
  \<open>time.Now().Format("2006-01-02")\<close>. The three file-system functions are independent:
  nothing assumes that they agree with each other.

  The last three fields are the parts of the standard library that rest on the Unicode
  tables, which are not modelled: \<open>strings_Map_ToLower s\<close> is
  \<open>strings.Map(unicode.ToLower, s)\<close>, \<open>strings_TrimFunc_IsSpace s\<close> is
  \<open>strings.TrimFunc(s, unicode.IsSpace)\<close> and \<open>strings_TrimRightFunc_IsSpace s\<close> is
  \<open>strings.TrimRightFunc(s, unicode.IsSpace)\<close>. Go calls them on text that holds a byte
  beyond ASCII only; every theorem holds whatever they return.
\<close>

record World =
  os_ReadDir :: "string \<Rightarrow> error + (string \<times> bool) list"
  os_Stat :: "string \<Rightarrow> error + FileInfo"
  os_Open :: "string \<Rightarrow> error + (string \<times> error option)"
  time_Today :: string
  strings_Map_ToLower :: "string \<Rightarrow> string"
  strings_TrimFunc_IsSpace :: "string \<Rightarrow> string"
  strings_TrimRightFunc_IsSpace :: "string \<Rightarrow> string"

subsection \<open>Library functions: paths\<close>

text \<open>
  \<open>filepath.Join\<close> on Unix: the elements from the first non-empty one on are joined
  with \<open>/\<close> and the result is cleaned. \<open>filepath.Clean\<close> works on the components
  between slashes: empty components and \<open>.\<close> are dropped, \<open>..\<close> removes the component
  before it (at the start it is dropped in a rooted path and kept in a relative one), and
  an empty result is \<open>.\<close>.
\<close>

fun splitSlash :: "string \<Rightarrow> string list" where
  "splitSlash [] = [[]]"
| "splitSlash (c # cs) =
     (if c = CHR ''/'' then [] # splitSlash cs
      else (case splitSlash cs of [] \<Rightarrow> [[c]] | x # xs \<Rightarrow> (c # x) # xs))"

fun joinSlash :: "string list \<Rightarrow> string" where
  "joinSlash [] = []"
| "joinSlash [x] = x"
| "joinSlash (x # y # ys) = x @ ''/'' @ joinSlash (y # ys)"

fun cleanStep :: "bool \<Rightarrow> string list \<Rightarrow> string \<Rightarrow> string list" where
  "cleanStep rooted out c =
     (if c = [] \<or> c = ''.'' then out
      else if c = ''..'' then
        (if out \<noteq> [] \<and> last out \<noteq> ''..'' then butlast out
         else if \<not> rooted then out @ [''..'']
         else out)
      else out @ [c])"

definition Clean :: "string \<Rightarrow> string" where
  "Clean path =
     (if path = [] then ''.''
      else let rooted = (hd path = CHR ''/'');
               out = foldl (cleanStep rooted) [] (splitSlash path)
           in if rooted then ''/'' @ joinSlash out
              else if out = [] then ''.''
              else joinSlash out)"

fun Join :: "string list \<Rightarrow> string" where
  "Join [] = []"
| "Join (e # es) = (if e \<noteq> [] then Clean (joinSlash (e # es)) else Join es)"

subsection \<open>Library functions: strings\<close>

text \<open>
  \<open>strings.Contains\<close> is the substring test. \<open>strings.ToLower\<close> and
  \<open>strings.TrimSpace\<close> follow their Go sources: each has a path of its own for text
  that is all ASCII and hands text with a byte of \<open>utf8.RuneSelf\<close> or more to the
  Unicode-aware functions of the environment.

  \<open>ToLower\<close>: a string of ASCII bytes has its letters \<open>A\<close> to \<open>Z\<close> moved by
  \<open>'a' - 'A'\<close>; any other string is \<open>strings.Map(unicode.ToLower, s)\<close>.

  \<open>TrimSpace\<close>: the first loop runs from the start over the bytes of the table
  \<open>asciiSpace\<close> (tab, line feed, vertical tab, form feed, carriage return, space) and
  returns \<open>TrimFunc(s[start:], unicode.IsSpace)\<close> at a byte beyond ASCII; the second
  loop runs from the end in the same way and returns
  \<open>TrimRightFunc(s[start:stop], unicode.IsSpace)\<close> at a byte beyond ASCII; otherwise
  the result is \<open>s[start:stop]\<close>.
\<close>

fun HasPrefix :: "string \<Rightarrow> string \<Rightarrow> bool" where
  "HasPrefix s [] = True"
| "HasPrefix [] (p # ps) = False"
| "HasPrefix (c # cs) (p # ps) = (c = p \<and> HasPrefix cs ps)"

fun Contains :: "string \<Rightarrow> string \<Rightarrow> bool" where
  "Contains [] substr = (substr = [])"
| "Contains (c # cs) substr = (HasPrefix (c # cs) substr \<or> Contains cs substr)"

definition RuneSelf :: char where
  "RuneSelf = CHR 0x80"

definition lowerByte :: "char \<Rightarrow> char" where
  "lowerByte c =
     (if CHR ''A'' \<le> c \<and> c \<le> CHR ''Z'' then char_of (of_char c + (32::nat)) else c)"

definition ToLower :: "World \<Rightarrow> string \<Rightarrow> string" where
  "ToLower w s =
     (if list_all (\<lambda>c. c < RuneSelf) s then map lowerByte s
      else strings_Map_ToLower w s)"

definition asciiSpace :: "char \<Rightarrow> bool" where
  "asciiSpace c = (c = CHR 0x09 \<or> c = CHR 0x0A \<or> c = CHR 0x0B \<or> c = CHR 0x0C
                   \<or> c = CHR 0x0D \<or> c = CHR '' '')"

text \<open>
  The second loop of \<open>TrimSpace\<close>, over \<open>s[start:]\<close> read from its end (the argument
  is that slice reversed), and the first loop.
\<close>

fun trimStop :: "World \<Rightarrow> string \<Rightarrow> string" where
  "trimStop w [] = []"
| "trimStop w (c # cs) =
     (if RuneSelf \<le> c then strings_TrimRightFunc_IsSpace w (rev (c # cs))
      else if asciiSpace c then trimStop w cs
      else rev (c # cs))"

fun trimStart :: "World \<Rightarrow> string \<Rightarrow> string" where
  "trimStart w [] = []"
| "trimStart w (c # cs) =
     (if RuneSelf \<le> c then strings_TrimFunc_IsSpace w (c # cs)
      else if asciiSpace c then trimStart w cs
      else trimStop w (rev (c # cs)))"

definition TrimSpace :: "World \<Rightarrow> string \<Rightarrow> string" where
  "TrimSpace w s = trimStart w s"

subsection \<open>Library functions: the line scanner\<close>

text \<open>
  \<open>bufio.NewScanner\<close> with the default split function \<open>ScanLines\<close>. A run of the
  scanner over a file is the list of the tokens that the successive calls of \<open>Scan()\<close>
  deliver, each with the value \<open>Err()\<close> has after that call, and the value of \<open>Err()\<close>
  once \<open>Scan()\<close> has returned false. A line ends at a line feed; one trailing carriage
  return is dropped; what follows the last line feed is a last line when it is not empty.
  A line of \<open>MaxScanTokenSize\<close> bytes or more does not fit the buffer: the scanner stops
  there with \<open>ErrTooLong\<close>. A read error ends the input like the end of the file does;
  the rest of the buffer is delivered as a last line, and \<open>Err()\<close> is the read error
  from then on.
\<close>

definition MaxScanTokenSize :: nat where
  "MaxScanTokenSize = 65536"

definition dropCR :: "string \<Rightarrow> string" where
  "dropCR d = (if d \<noteq> [] \<and> last d = CHR 0x0D then butlast d else d)"

fun scanTokens ::
  "error option \<Rightarrow> string \<Rightarrow> string \<Rightarrow> (string \<times> error option) list \<times> error option" where
  "scanTokens rerr cur [] =
     (if MaxScanTokenSize \<le> length cur then ([], Some ErrTooLong)
      else if cur = [] then ([], rerr)
      else ([(dropCR cur, rerr)], rerr))"
| "scanTokens rerr cur (c # cs) =
     (if c = CHR 0x0A then
        (if MaxScanTokenSize \<le> length cur then ([], Some ErrTooLong)
         else (case scanTokens rerr [] cs of (toks, e) \<Rightarrow> ((dropCR cur, None) # toks, e)))
      else scanTokens rerr (cur @ [c]) cs)"

definition scanRun ::
  "string \<times> error option \<Rightarrow> (string \<times> error option) list \<times> error option" where
  "scanRun file = scanTokens (snd file) [] (fst file)"

subsection \<open>Data model\<close>

record LogEntry =
  le_Source :: string
  le_Date :: string
  le_Workflow :: string
  LogType :: string
  Content :: string
  le_HasErrors :: bool
  FilePath :: string
  Size :: "64 word"
  ModTime :: int

record WorkflowSummary =
  Source :: string
  Date :: string
  Workflow :: string
  Logs :: "LogEntry list"
  HasErrors :: bool
  Status :: string

record Scanner =
  nfsRoot :: string

subsection \<open>Classifying one log file\<close>

definition errorPatterns :: "string list" where
  "errorPatterns =
     [''ERROR'', ''FATAL'', ''Exception'', ''Failed'', ''failure'', ''FAILED'',
      ''error:'', ''Error:'']"

text \<open>The loop \<open>for scanner.Scan()\<close> of \<open>detectErrors\<close> over the run of the scanner.\<close>

fun scanPatterns :: "(string \<times> error option) list \<Rightarrow> error option \<Rightarrow> bool \<times> error option" where
  "scanPatterns [] efinal = (False, efinal)"
| "scanPatterns ((line, e) # rest) efinal =
     (if list_ex (Contains line) errorPatterns then (True, None)
      else scanPatterns rest efinal)"

text \<open>
  For \<open>error.log\<close> the scanner is asked for one token only, and \<open>Text()\<close> is that
  token, or empty when there is none.
\<close>

definition detectErrors :: "World \<Rightarrow> string \<Rightarrow> string \<Rightarrow> bool \<times> error option" where
  "detectErrors w filePath logType =
     (case os_Open w filePath of
        Inl err \<Rightarrow> (False, Some err)
      | Inr file \<Rightarrow>
          (case scanRun file of (toks, efinal) \<Rightarrow>
             if logType = ''error.log'' then
               (case toks of
                  [] \<Rightarrow> (0 < length (TrimSpace w []), efinal)
                | (text, e) # _ \<Rightarrow> (0 < length (TrimSpace w text), e))
             else scanPatterns toks efinal))"

definition scanLogFile ::
  "World \<Rightarrow> string \<Rightarrow> string \<Rightarrow> string \<Rightarrow> string \<Rightarrow> string \<Rightarrow> error + LogEntry" where
  "scanLogFile w source date workflow logType filePath =
     (case os_Stat w filePath of
        Inl err \<Rightarrow> Inl err
      | Inr stat \<Rightarrow>
          (case detectErrors w filePath logType of
             (hasErrors, Some err) \<Rightarrow> Inl err
           | (hasErrors, None) \<Rightarrow>
               Inr \<lparr>le_Source = source, le_Date = date, le_Workflow = workflow,
                    LogType = logType, Content = [], le_HasErrors = hasErrors,
                    FilePath = filePath, Size = fi_Size stat, ModTime = fi_ModTime stat\<rparr>))"

subsection \<open>Inspecting one workflow directory\<close>

definition determineWorkflowStatus :: "WorkflowSummary \<Rightarrow> string" where
  "determineWorkflowStatus summary =
     (if HasErrors summary then ''Failed''
      else if length (Logs summary) = 0 then ''No Logs''
      else let hasRunLog = list_ex (\<lambda>log. LogType log = ''run.log'') (Logs summary)
           in if hasRunLog \<and> \<not> HasErrors summary then ''Completed''
              else ''In Progress'')"

text \<open>
  The loop over the three file names of \<open>scanWorkflow\<close>: a name that does not exist is
  skipped, a file that cannot be scanned is skipped (the source logs the error), and a
  scanned file is appended and raises the summary's flag when its own is set.
\<close>

fun scanWorkflowLogs ::
  "World \<Rightarrow> string \<Rightarrow> string \<Rightarrow> string \<Rightarrow> string \<Rightarrow> string list \<Rightarrow> WorkflowSummary
   \<Rightarrow> WorkflowSummary" where
  "scanWorkflowLogs w workflowPath source date workflow [] summary = summary"
| "scanWorkflowLogs w workflowPath source date workflow (logType # rest) summary =
     (let logPath = Join [workflowPath, logType] in
      if (case os_Stat w logPath of Inl err \<Rightarrow> IsNotExist err | Inr _ \<Rightarrow> False)
      then scanWorkflowLogs w workflowPath source date workflow rest summary
      else (case scanLogFile w source date workflow logType logPath of
              Inl err \<Rightarrow> scanWorkflowLogs w workflowPath source date workflow rest summary
            | Inr logEntry \<Rightarrow>
                scanWorkflowLogs w workflowPath source date workflow rest
                  (summary\<lparr>Logs := Logs summary @ [logEntry],
                           HasErrors := (if le_HasErrors logEntry then True
                                         else HasErrors summary)\<rparr>)))"

definition scanWorkflow ::
  "World \<Rightarrow> Scanner \<Rightarrow> string \<Rightarrow> string \<Rightarrow> string \<Rightarrow> error + WorkflowSummary" where
  "scanWorkflow w s source date workflow =
     (let workflowPath = Join [nfsRoot s, source, date, workflow];
          summary = \<lparr>Source = source, Date = date, Workflow = workflow, Logs = [],
                     HasErrors = False, Status = ''Unknown''\<rparr>;
          logTypes = [''info.log'', ''error.log'', ''run.log''];
          summary = scanWorkflowLogs w workflowPath source date workflow logTypes summary
      in Inr (summary\<lparr>Status := determineWorkflowStatus summary\<rparr>))"

subsection \<open>Walking the sources of one date\<close>

text \<open>The loop \<open>if entry.IsDir() { append(..., entry.Name()) }\<close> of both listings.\<close>

fun dirNames :: "(string \<times> bool) list \<Rightarrow> string list" where
  "dirNames [] = []"
| "dirNames ((name, isDir) # rest) = (if isDir then name # dirNames rest else dirNames rest)"

definition getSourceDirectories :: "World \<Rightarrow> Scanner \<Rightarrow> error + string list" where
  "getSourceDirectories w s =
     (case os_ReadDir w (nfsRoot s) of
        Inl err \<Rightarrow> Inl err
      | Inr entries \<Rightarrow> Inr (dirNames entries))"

definition getWorkflowDirectories :: "World \<Rightarrow> string \<Rightarrow> error + string list" where
  "getWorkflowDirectories w datePath =
     (case os_ReadDir w datePath of
        Inl err \<Rightarrow> Inl err
      | Inr entries \<Rightarrow> Inr (dirNames entries))"

fun scanWorkflows ::
  "World \<Rightarrow> Scanner \<Rightarrow> string \<Rightarrow> string \<Rightarrow> string list \<Rightarrow> WorkflowSummary list
   \<Rightarrow> WorkflowSummary list" where
  "scanWorkflows w s source date [] summaries = summaries"
| "scanWorkflows w s source date (workflow # rest) summaries =
     (case scanWorkflow w s source date workflow of
        Inl err \<Rightarrow> scanWorkflows w s source date rest summaries
      | Inr summary \<Rightarrow> scanWorkflows w s source date rest (summaries @ [summary]))"

definition scanSourceForDate ::
  "World \<Rightarrow> Scanner \<Rightarrow> string \<Rightarrow> string \<Rightarrow> error + WorkflowSummary list" where
  "scanSourceForDate w s source date =
     (let datePath = Join [nfsRoot s, source, date] in
      if (case os_Stat w datePath of Inl err \<Rightarrow> IsNotExist err | Inr _ \<Rightarrow> False)
      then Inr []
      else (case getWorkflowDirectories w datePath of
              Inl err \<Rightarrow> Inl err
            | Inr workflows \<Rightarrow> Inr (scanWorkflows w s source date workflows [])))"

subsection \<open>The scan of one date\<close>

text \<open>
  \<open>sort.Slice\<close> is the standard library's sort by a \<open>less\<close> function: it permutes the
  slice so that no element is \<open>less\<close> than one before it. It is modelled by an insertion
  sort. (Go leaves the order of elements that are equal under \<open>less\<close> open; the insertion
  sort keeps them in their order of arrival.)
\<close>

fun insertBy :: "('a \<Rightarrow> 'a \<Rightarrow> bool) \<Rightarrow> 'a \<Rightarrow> 'a list \<Rightarrow> 'a list" where
  "insertBy lessf x [] = [x]"
| "insertBy lessf x (y # ys) = (if lessf y x then y # insertBy lessf x ys else x # y # ys)"

fun sort_Slice :: "('a \<Rightarrow> 'a \<Rightarrow> bool) \<Rightarrow> 'a list \<Rightarrow> 'a list" where
  "sort_Slice lessf [] = []"
| "sort_Slice lessf (x # xs) = insertBy lessf x (sort_Slice lessf xs)"

text \<open>The comparison function that \<open>ScanLogsForDate\<close> passes to \<open>sort.Slice\<close>.\<close>

definition summaryLess :: "WorkflowSummary \<Rightarrow> WorkflowSummary \<Rightarrow> bool" where
  "summaryLess a b =
     (if Source a \<noteq> Source b then Source a < Source b else Workflow a < Workflow b)"

fun scanSources ::
  "World \<Rightarrow> Scanner \<Rightarrow> string \<Rightarrow> string list \<Rightarrow> WorkflowSummary list \<Rightarrow> WorkflowSummary list" where
  "scanSources w s date [] summaries = summaries"
| "scanSources w s date (source # rest) summaries =
     (case scanSourceForDate w s source date of
        Inl err \<Rightarrow> scanSources w s date rest summaries
      | Inr sourceSummaries \<Rightarrow> scanSources w s date rest (summaries @ sourceSummaries))"

definition ScanLogsForDate :: "World \<Rightarrow> Scanner \<Rightarrow> string \<Rightarrow> error + WorkflowSummary list" where
  "ScanLogsForDate w s date =
     (case getSourceDirectories w s of
        Inl err \<Rightarrow> Inl (Wrapped ''failed to get source directories'' err)
      | Inr sources \<Rightarrow> Inr (sort_Slice summaryLess (scanSources w s date sources [])))"

definition ScanTodaysLogs :: "World \<Rightarrow> Scanner \<Rightarrow> error + WorkflowSummary list" where
  "ScanTodaysLogs w s = (let today = time_Today w in ScanLogsForDate w s today)"

subsection \<open>Reading and searching file contents\<close>

text \<open>
  The loop \<open>for scanner.Scan() && (maxLines == 0 || lineCount < maxLines)\<close>: \<open>Scan()\<close>
  is called before the bound is tested, so the loop that stops at the bound has asked
  for one more token, and \<open>Err()\<close> is the error after that call.
\<close>

fun readLines ::
  "int \<Rightarrow> int \<Rightarrow> (string \<times> error option) list \<Rightarrow> error option \<Rightarrow> string list
   \<Rightarrow> string list \<times> error option" where
  "readLines maxLines lineCount [] efinal lines = (lines, efinal)"
| "readLines maxLines lineCount ((text, e) # rest) efinal lines =
     (if maxLines = 0 \<or> lineCount < maxLines
      then readLines maxLines (lineCount + 1) rest efinal (lines @ [text])
      else (lines, e))"

definition GetLogContent :: "World \<Rightarrow> string \<Rightarrow> int \<Rightarrow> string list \<times> error option" where
  "GetLogContent w filePath maxLines =
     (case os_Open w filePath of
        Inl err \<Rightarrow> ([], Some err)
      | Inr file \<Rightarrow>
          (case scanRun file of (toks, efinal) \<Rightarrow> readLines maxLines 0 toks efinal []))"

text \<open>
  \<open>allLines[start:]\<close> panics when \<open>start\<close> is outside \<open>0 .. len(allLines)\<close>, which
  a negative \<open>lines\<close> brings about (with Go's 64-bit \<open>int\<close> the difference is either
  beyond the length or wraps to a negative number).
\<close>

definition GetLogTail :: "World \<Rightarrow> string \<Rightarrow> int \<Rightarrow> error + string list" where
  "GetLogTail w filePath lines =
     (case GetLogContent w filePath 0 of
        (allLines, Some err) \<Rightarrow> Inl err
      | (allLines, None) \<Rightarrow>
          (let start = (if int (length allLines) > lines
                        then int (length allLines) - lines else 0)
           in if start < 0 \<or> int (length allLines) < start then Inl PanicSliceBounds
              else Inr (drop (nat start) allLines)))"

text \<open>The three nested loops of \<open>SearchLogs\<close>, innermost first.\<close>

fun searchLines :: "World \<Rightarrow> string \<Rightarrow> string list \<Rightarrow> string option" where
  "searchLines w keyword [] = None"
| "searchLines w keyword (line # rest) =
     (if Contains (ToLower w line) (ToLower w keyword) then Some line
      else searchLines w keyword rest)"

fun searchEntries :: "World \<Rightarrow> string \<Rightarrow> LogEntry list \<Rightarrow> LogEntry list \<Rightarrow> LogEntry list" where
  "searchEntries w keyword [] results = results"
| "searchEntries w keyword (logEntry # rest) results =
     (case GetLogContent w (FilePath logEntry) 1000 of
        (content, Some err) \<Rightarrow> searchEntries w keyword rest results
      | (content, None) \<Rightarrow>
          (case searchLines w keyword content of
             None \<Rightarrow> searchEntries w keyword rest results
           | Some line \<Rightarrow>
               searchEntries w keyword rest (results @ [logEntry\<lparr>Content := line\<rparr>])))"

fun searchSummaries ::
  "World \<Rightarrow> string \<Rightarrow> WorkflowSummary list \<Rightarrow> LogEntry list \<Rightarrow> LogEntry list" where
  "searchSummaries w keyword [] results = results"
| "searchSummaries w keyword (summary # rest) results =
     searchSummaries w keyword rest (searchEntries w keyword (Logs summary) results)"

definition SearchLogs :: "World \<Rightarrow> Scanner \<Rightarrow> string \<Rightarrow> error + LogEntry list" where
  "SearchLogs w s keyword =
     (case ScanTodaysLogs w s of
        Inl err \<Rightarrow> Inl err
      | Inr summaries \<Rightarrow> Inr (searchSummaries w keyword summaries []))"

subsection \<open>The search as the specification words it\<close>

text \<open>
  The specification's reading of the search, for comparison with \<open>SearchLogs\<close>: run a
  scan for the given date; for every log entry of every summary read the first 1000 lines
  of its file; the first of these lines that contains the keyword, both taken to lower
  case, is the one match of the file. The lines of a file are the lines that reading it
  delivers, none when it cannot be opened.
\<close>

definition spec_fileLines :: "World \<Rightarrow> string \<Rightarrow> string list" where
  "spec_fileLines w path =
     (case os_Open w path of
        Inl err \<Rightarrow> []
      | Inr file \<Rightarrow> map fst (fst (scanRun file)))"

definition spec_firstLines :: "World \<Rightarrow> string \<Rightarrow> string list" where
  "spec_firstLines w path = take 1000 (spec_fileLines w path)"

definition spec_fileMatch :: "World \<Rightarrow> string \<Rightarrow> LogEntry \<Rightarrow> LogEntry list" where
  "spec_fileMatch w keyword logEntry =
     (case find (\<lambda>line. Contains (ToLower w line) (ToLower w keyword))
             (spec_firstLines w (FilePath logEntry)) of
        None \<Rightarrow> []
      | Some line \<Rightarrow> [logEntry\<lparr>Content := line\<rparr>])"

definition spec_search :: "World \<Rightarrow> Scanner \<Rightarrow> string \<Rightarrow> string \<Rightarrow> error + LogEntry list" where
  "spec_search w s keyword date =
     (case ScanLogsForDate w s date of
        Inl err \<Rightarrow> Inl err
      | Inr summaries \<Rightarrow>
          Inr (concat (map (spec_fileMatch w keyword) (concat (map Logs summaries)))))"

text \<open>
  What \<open>SearchLogs\<close> does beyond these words: a file is searched only when
  \<open>GetLogContent\<close> with the bound 1000 returns no error.
\<close>

definition readsCleanly :: "World \<Rightarrow> string \<Rightarrow> bool" where
  "readsCleanly w path = (snd (GetLogContent w path 1000) = None)"

subsection \<open>A small tree for concrete runs\<close>

text \<open>
  Root \<open>/nfs\<close> with four source directories and one plain file. \<open>batchA\<close> has three
  workflows for 2025-01-10: \<open>job1\<close> (activity log and run log, clean), \<open>job2\<close> (an
  activity log with the word FAILED), \<open>job3\<close> (an error log with text, and a run log).
  \<open>batchB\<close> has \<open>etl\<close> (an activity log, and an error log whose first line is blank
  and whose second line is not) and \<open>empty\<close> (no log files). The date directory of
  \<open>broken\<close> exists and cannot be listed; \<open>idle\<close> has no directory for that date.
  All text in the tree is ASCII, so the Unicode-aware functions of the environment are
  never called; they are set to the identity.
\<close>

definition demo_dirs :: "(string \<times> (error + (string \<times> bool) list)) list" where
  "demo_dirs =
     [(''/nfs'', Inr [(''batchB'', True), (''batchA'', True), (''README'', False),
                      (''broken'', True), (''idle'', True)]),
      (''/nfs/batchA/2025-01-10'', Inr [(''job3'', True), (''job2'', True), (''job1'', True)]),
      (''/nfs/batchB/2025-01-10'', Inr [(''etl'', True), (''notes.txt'', False), (''empty'', True)]),
      (''/nfs/broken/2025-01-10'', Inl ErrPermission)]"

definition demo_files :: "(string \<times> string) list" where
  "demo_files =
     [(''/nfs/batchA/2025-01-10/job1/info.log'', ''start\<newline>done\<newline>''),
      (''/nfs/batchA/2025-01-10/job1/run.log'', ''ok\<newline>''),
      (''/nfs/batchA/2025-01-10/job2/info.log'', ''start\<newline>step FAILED here\<newline>''),
      (''/nfs/batchA/2025-01-10/job3/error.log'', ''disk full\<newline>''),
      (''/nfs/batchA/2025-01-10/job3/run.log'', ''ok\<newline>''),
      (''/nfs/batchB/2025-01-10/etl/error.log'', ''\<newline>boom\<newline>''),
      (''/nfs/batchB/2025-01-10/etl/info.log'', ''Hello World'')]"

definition demo_world :: World where
  "demo_world =
     \<lparr>os_ReadDir = (\<lambda>p. case map_of demo_dirs p of None \<Rightarrow> Inl ErrNotExist | Some r \<Rightarrow> r),
      os_Stat = (\<lambda>p. case map_of demo_files p of
                        Some d \<Rightarrow> Inr \<lparr>fi_Size = of_nat (length d), fi_ModTime = 0\<rparr>
                      | None \<Rightarrow> (case map_of demo_dirs p of
                                   Some r \<Rightarrow> Inr \<lparr>fi_Size = 4096, fi_ModTime = 0\<rparr>
                                 | None \<Rightarrow> Inl ErrNotExist)),
      os_Open = (\<lambda>p. case map_of demo_files p of
                        Some d \<Rightarrow> Inr (d, None)
                      | None \<Rightarrow> Inl ErrNotExist),
      time_Today = ''2025-01-10'',
      strings_Map_ToLower = (\<lambda>s. s),
      strings_TrimFunc_IsSpace = (\<lambda>s. s),
      strings_TrimRightFunc_IsSpace = (\<lambda>s. s)\<rparr>"

definition demo_scanner :: Scanner where
  "demo_scanner = \<lparr>nfsRoot = ''/nfs''\<rparr>"

definition demo_entry :: "string \<Rightarrow> string \<Rightarrow> string \<Rightarrow> bool \<Rightarrow> 64 word \<Rightarrow> LogEntry" where
  "demo_entry source workflow logType hasErrors sz =
     \<lparr>le_Source = source, le_Date = ''2025-01-10'', le_Workflow = workflow,
      LogType = logType, Content = [], le_HasErrors = hasErrors,
      FilePath = ''/nfs/'' @ source @ ''/2025-01-10/'' @ workflow @ ''/'' @ logType,
      Size = sz, ModTime = 0\<rparr>"

definition demo_job1 :: WorkflowSummary where
  "demo_job1 =
     \<lparr>Source = ''batchA'', Date = ''2025-01-10'', Workflow = ''job1'',
      Logs = [demo_entry ''batchA'' ''job1'' ''info.log'' False 11,
              demo_entry ''batchA'' ''job1'' ''run.log'' False 3],
      HasErrors = False, Status = ''Completed''\<rparr>"

definition demo_job2 :: WorkflowSummary where
  "demo_job2 =
     \<lparr>Source = ''batchA'', Date = ''2025-01-10'', Workflow = ''job2'',
      Logs = [demo_entry ''batchA'' ''job2'' ''info.log'' True 23],
      HasErrors = True, Status = ''Failed''\<rparr>"

definition demo_job3 :: WorkflowSummary where
  "demo_job3 =
     \<lparr>Source = ''batchA'', Date = ''2025-01-10'', Workflow = ''job3'',
      Logs = [demo_entry ''batchA'' ''job3'' ''error.log'' True 10,
              demo_entry ''batchA'' ''job3'' ''run.log'' False 3],
      HasErrors = True, Status = ''Failed''\<rparr>"

definition demo_empty :: WorkflowSummary where
  "demo_empty =
     \<lparr>Source = ''batchB'', Date = ''2025-01-10'', Workflow = ''empty'',
      Logs = [], HasErrors = False, Status = ''No Logs''\<rparr>"

definition demo_etl :: WorkflowSummary where
  "demo_etl =
     \<lparr>Source = ''batchB'', Date = ''2025-01-10'', Workflow = ''etl'',
      Logs = [demo_entry ''batchB'' ''etl'' ''info.log'' False 11,
              demo_entry ''batchB'' ''etl'' ''error.log'' False 6],
      HasErrors = False, Status = ''In Progress''\<rparr>"

definition demo_result :: "WorkflowSummary list" where
  "demo_result = [demo_job1, demo_job2, demo_job3, demo_empty, demo_etl]"



definition long_line_world :: World where
  "long_line_world =
     \<lparr>os_ReadDir = (\<lambda>p. Inl ErrNotExist),
      os_Stat = (\<lambda>p. Inr \<lparr>fi_Size = 65536, fi_ModTime = 0\<rparr>),
      os_Open = (\<lambda>p. Inr (replicate 65536 (CHR ''a''), None)),
      time_Today = ''2025-01-10'',
      strings_Map_ToLower = (\<lambda>s. s),
      strings_TrimFunc_IsSpace = (\<lambda>s. s),
      strings_TrimRightFunc_IsSpace = (\<lambda>s. s)\<rparr>"

declare Join.simps [simp del]

section \<open>Properties\<close>

subsection \<open>Sorting\<close>

lemma set_insertBy: "set (insertBy lessf x xs) = insert x (set xs)"
  by (induction xs) auto

lemma set_sort_Slice: "set (sort_Slice lessf xs) = set xs"
  by (induction xs) (auto simp: set_insertBy)

lemma length_insertBy: "length (insertBy lessf x xs) = Suc (length xs)"
  by (induction xs) auto

lemma length_sort_Slice: "length (sort_Slice lessf xs) = length xs"
  by (induction xs) (auto simp: length_insertBy)

lemma sorted_insertBy:
  assumes asym: "\<And>a b. lessf a b \<Longrightarrow> \<not> lessf b a"
    and ntrans: "\<And>a b c. \<not> lessf b a \<Longrightarrow> \<not> lessf c b \<Longrightarrow> \<not> lessf c a"
    and srt: "sorted_wrt (\<lambda>a b. \<not> lessf b a) xs"
  shows "sorted_wrt (\<lambda>a b. \<not> lessf b a) (insertBy lessf x xs)"
  using srt
proof (induction xs)
  case Nil
  then show ?case by simp
next
  case (Cons y ys)
  show ?case
  proof (cases "lessf y x")
    case True
    have "\<not> lessf x y" using True asym by blast
    moreover have "\<forall>z\<in>set ys. \<not> lessf z y" using Cons.prems by simp
    ultimately have "\<forall>z\<in>set (insertBy lessf x ys). \<not> lessf z y"
      by (simp add: set_insertBy)
    moreover have "sorted_wrt (\<lambda>a b. \<not> lessf b a) (insertBy lessf x ys)"
      using Cons by simp
    ultimately show ?thesis using True by simp
  next
    case False
    have "\<forall>z\<in>set ys. \<not> lessf z x"
      using Cons.prems False ntrans by auto
    then show ?thesis using False Cons.prems by simp
  qed
qed

lemma sorted_sort_Slice:
  assumes asym: "\<And>a b. lessf a b \<Longrightarrow> \<not> lessf b a"
    and ntrans: "\<And>a b c. \<not> lessf b a \<Longrightarrow> \<not> lessf c b \<Longrightarrow> \<not> lessf c a"
  shows "sorted_wrt (\<lambda>a b. \<not> lessf b a) (sort_Slice lessf xs)"
proof (induction xs)
  case Nil
  then show ?case by simp
next
  case (Cons x xs)
  then show ?case using sorted_insertBy [of lessf, OF asym ntrans] by simp
qed

lemma summaryLess_asym: "summaryLess a b \<Longrightarrow> \<not> summaryLess b a"
  by (auto simp: summaryLess_def split: if_splits)

lemma summaryLess_ntrans:
  "\<not> summaryLess b a \<Longrightarrow> \<not> summaryLess c b \<Longrightarrow> \<not> summaryLess c a"
  by (auto simp: summaryLess_def split: if_splits)

lemma not_summaryLess_iff:
  "(\<not> summaryLess b a) =
     (Source a < Source b \<or> (Source a = Source b \<and> Workflow a \<le> Workflow b))"
  by (auto simp: summaryLess_def)

lemma sorted_scan:
  "ScanLogsForDate w s date = Inr result \<Longrightarrow>
   sorted_wrt (\<lambda>a b. \<not> summaryLess b a) result"
  using sorted_sort_Slice [of summaryLess, OF summaryLess_asym summaryLess_ntrans]
  by (auto simp: ScanLogsForDate_def split: sum.splits)

subsection \<open>The structure of a scan\<close>

lemma scanWorkflowLogs_flag:
  "HasErrors summary = (\<exists>log\<in>set (Logs summary). le_HasErrors log) \<Longrightarrow>
   HasErrors (scanWorkflowLogs w p source date workflow logTypes summary) =
     (\<exists>log\<in>set (Logs (scanWorkflowLogs w p source date workflow logTypes summary)).
        le_HasErrors log)"
proof (induction logTypes arbitrary: summary)
  case Nil
  then show ?case by simp
next
  case (Cons logType rest)
  show ?case
  proof (cases "case os_Stat w (Join [p, logType]) of Inl err \<Rightarrow> IsNotExist err | Inr _ \<Rightarrow> False")
    case True
    then show ?thesis using Cons by (simp add: Let_def)
  next
    case False
    show ?thesis
    proof (cases "scanLogFile w source date workflow logType (Join [p, logType])")
      case (Inl err)
      then show ?thesis using False Cons by (simp add: Let_def)
    next
      case (Inr logEntry)
      let ?s = "summary\<lparr>Logs := Logs summary @ [logEntry],
                  HasErrors := (if le_HasErrors logEntry then True else HasErrors summary)\<rparr>"
      have "HasErrors ?s = (\<exists>log\<in>set (Logs ?s). le_HasErrors log)"
        using Cons.prems by auto
      then show ?thesis using False Inr Cons.IH [of ?s] by (simp add: Let_def)
    qed
  qed
qed

lemma scanWorkflowLogs_ident:
  "Source (scanWorkflowLogs w p source date workflow logTypes summary) = Source summary
   \<and> Workflow (scanWorkflowLogs w p source date workflow logTypes summary) = Workflow summary
   \<and> Date (scanWorkflowLogs w p source date workflow logTypes summary) = Date summary"
  by (induction logTypes arbitrary: summary) (auto simp: Let_def split: sum.splits)

lemma determineWorkflowStatus_Status_update:
  "determineWorkflowStatus (summary\<lparr>Status := st\<rparr>) = determineWorkflowStatus summary"
  by (simp add: determineWorkflowStatus_def)

lemma scanWorkflow_shape:
  assumes "scanWorkflow w s source date workflow = Inr x"
  shows "\<exists>p. x = (scanWorkflowLogs w p source date workflow
                     [''info.log'', ''error.log'', ''run.log'']
                     \<lparr>Source = source, Date = date, Workflow = workflow, Logs = [],
                      HasErrors = False, Status = ''Unknown''\<rparr>)
                  \<lparr>Status := determineWorkflowStatus
                     (scanWorkflowLogs w p source date workflow
                        [''info.log'', ''error.log'', ''run.log'']
                        \<lparr>Source = source, Date = date, Workflow = workflow, Logs = [],
                         HasErrors = False, Status = ''Unknown''\<rparr>)\<rparr>"
  using assms unfolding scanWorkflow_def Let_def by blast

lemma scanWorkflow_flag:
  assumes "scanWorkflow w s source date workflow = Inr x"
  shows "HasErrors x = (\<exists>log\<in>set (Logs x). le_HasErrors log)"
proof -
  let ?init = "\<lparr>Source = source, Date = date, Workflow = workflow, Logs = [],
                 HasErrors = False, Status = ''Unknown''\<rparr>"
  have init: "HasErrors ?init = (\<exists>log\<in>set (Logs ?init). le_HasErrors log)" by simp
  obtain p where x: "x = (scanWorkflowLogs w p source date workflow
        [''info.log'', ''error.log'', ''run.log''] ?init)
      \<lparr>Status := determineWorkflowStatus (scanWorkflowLogs w p source date workflow
        [''info.log'', ''error.log'', ''run.log''] ?init)\<rparr>"
    using scanWorkflow_shape [OF assms] by blast
  show ?thesis
    unfolding x using scanWorkflowLogs_flag [OF init, of w p source date workflow]
    by (simp del: scanWorkflowLogs.simps)
qed

lemma scanWorkflow_status:
  assumes "scanWorkflow w s source date workflow = Inr x"
  shows "Status x = determineWorkflowStatus x"
proof -
  obtain y where "x = y\<lparr>Status := determineWorkflowStatus y\<rparr>"
    using scanWorkflow_shape [OF assms] by blast
  then show ?thesis by (simp add: determineWorkflowStatus_Status_update)
qed

lemma scanWorkflow_ident:
  assumes "scanWorkflow w s source date workflow = Inr x"
  shows "Source x = source \<and> Workflow x = workflow \<and> Date x = date"
proof -
  let ?init = "\<lparr>Source = source, Date = date, Workflow = workflow, Logs = [],
                 HasErrors = False, Status = ''Unknown''\<rparr>"
  obtain p where x: "x = (scanWorkflowLogs w p source date workflow
        [''info.log'', ''error.log'', ''run.log''] ?init)
      \<lparr>Status := determineWorkflowStatus (scanWorkflowLogs w p source date workflow
        [''info.log'', ''error.log'', ''run.log''] ?init)\<rparr>"
    using scanWorkflow_shape [OF assms] by blast
  show ?thesis
    unfolding x using scanWorkflowLogs_ident [of w p source date workflow _ ?init]
    by (simp del: scanWorkflowLogs.simps)
qed

lemma scanWorkflow_total: "\<exists>x. scanWorkflow w s source date workflow = Inr x"
  by (simp add: scanWorkflow_def Let_def)

lemma set_scanWorkflows:
  "set (scanWorkflows w s source date workflows summaries) =
     set summaries \<union>
     {x. \<exists>workflow\<in>set workflows. scanWorkflow w s source date workflow = Inr x}"
  by (induction workflows arbitrary: summaries) (auto split: sum.splits)

lemma scanSourceForDate_elems:
  assumes "scanSourceForDate w s source date = Inr xs" and "x \<in> set xs"
  shows "\<exists>workflow. scanWorkflow w s source date workflow = Inr x"
  using assms
  by (auto simp: scanSourceForDate_def Let_def set_scanWorkflows split: if_splits sum.splits)

lemma set_scanSources:
  "set (scanSources w s date sources summaries) =
     set summaries \<union>
     {x. \<exists>source\<in>set sources. \<exists>xs. scanSourceForDate w s source date = Inr xs \<and> x \<in> set xs}"
  by (induction sources arbitrary: summaries) (auto split: sum.splits)

lemma set_ScanLogsForDate:
  assumes "getSourceDirectories w s = Inr sources"
  shows "\<exists>result. ScanLogsForDate w s date = Inr result \<and>
           set result = {x. \<exists>source\<in>set sources. \<exists>xs.
                             scanSourceForDate w s source date = Inr xs \<and> x \<in> set xs}"
  using assms by (simp add: ScanLogsForDate_def set_sort_Slice set_scanSources)

lemma ScanLogsForDate_elems:
  assumes "ScanLogsForDate w s date = Inr result" and "x \<in> set result"
  shows "\<exists>source workflow. scanWorkflow w s source date workflow = Inr x"
proof -
  obtain sources where src: "getSourceDirectories w s = Inr sources"
    using assms(1) by (auto simp: ScanLogsForDate_def split: sum.splits)
  from set_ScanLogsForDate [OF src, of date] assms
  obtain source xs where "scanSourceForDate w s source date = Inr xs" "x \<in> set xs"
    by auto
  then show ?thesis using scanSourceForDate_elems by blast
qed

lemma determineWorkflowStatus_cases:
  "determineWorkflowStatus summary =
     (if HasErrors summary then ''Failed''
      else if Logs summary = [] then ''No Logs''
      else if (\<exists>log\<in>set (Logs summary). LogType log = ''run.log'') then ''Completed''
      else ''In Progress'')"
  by (simp add: determineWorkflowStatus_def Let_def list_ex_iff)

lemma determineWorkflowStatus_range:
  "determineWorkflowStatus summary \<in> {''Failed'', ''No Logs'', ''Completed'', ''In Progress''}"
  by (simp add: determineWorkflowStatus_def Let_def)

lemma scanSourceForDate_Source:
  assumes "scanSourceForDate w s source date = Inr xs" and "x \<in> set xs"
  shows "Source x = source"
  using scanSourceForDate_elems [OF assms] scanWorkflow_ident by blast

subsection \<open>Strings\<close>

lemma Contains_Nil [simp]: "Contains s [] = True"
  by (cases s) simp_all

lemma ToLower_Nil [simp]: "ToLower w [] = []"
  by (simp add: ToLower_def)

lemma TrimSpace_Nil [simp]: "TrimSpace w [] = []"
  by (simp add: TrimSpace_def)

lemma trimStop_ascii_empty:
  "list_all (\<lambda>c. c < RuneSelf) r \<Longrightarrow> (trimStop w r = []) = (\<forall>c\<in>set r. asciiSpace c)"
  by (induction r) auto

lemma trimStart_ascii_empty:
  "list_all (\<lambda>c. c < RuneSelf) t \<Longrightarrow> (trimStart w t = []) = (\<forall>c\<in>set t. asciiSpace c)"
proof (induction t)
  case Nil
  then show ?case by simp
next
  case (Cons c cs)
  have ascii: "\<not> RuneSelf \<le> c" using Cons.prems by auto
  show ?case
  proof (cases "asciiSpace c")
    case True
    then show ?thesis using ascii Cons by simp
  next
    case False
    have "list_all (\<lambda>c. c < RuneSelf) (rev (c # cs))"
      using Cons.prems by (simp add: list_all_iff)
    from trimStop_ascii_empty [OF this, of w]
    have "trimStop w (rev (c # cs)) \<noteq> []" using False by auto
    then show ?thesis using ascii False by auto
  qed
qed

lemma TrimSpace_ascii_empty_iff:
  "list_all (\<lambda>c. c < RuneSelf) t \<Longrightarrow> (TrimSpace w t = []) = (\<forall>c\<in>set t. asciiSpace c)"
  by (simp add: TrimSpace_def trimStart_ascii_empty)

text \<open>On ASCII text neither function calls the Unicode-aware part of the environment.\<close>

lemma ToLower_ascii:
  "list_all (\<lambda>c. c < RuneSelf) t \<Longrightarrow> ToLower w t = map lowerByte t"
  by (simp add: ToLower_def)

lemma trimStop_ascii_indep:
  "list_all (\<lambda>c. c < RuneSelf) r \<Longrightarrow> trimStop w r = trimStop w' r"
  by (induction r) auto

lemma TrimSpace_ascii_indep:
  "list_all (\<lambda>c. c < RuneSelf) t \<Longrightarrow> TrimSpace w t = TrimSpace w' t"
  unfolding TrimSpace_def
proof (induction t)
  case Nil
  then show ?case by simp
next
  case (Cons c cs)
  have ascii: "\<not> RuneSelf \<le> c" using Cons.prems by auto
  have "list_all (\<lambda>c. c < RuneSelf) (rev (c # cs))"
    using Cons.prems by (simp add: list_all_iff)
  then have "trimStop w (rev (c # cs)) = trimStop w' (rev (c # cs))"
    by (rule trimStop_ascii_indep)
  then show ?case using ascii Cons by simp
qed

lemma detectErrors_error_log:
  assumes "os_Open w filePath = Inr file"
  shows "fst (detectErrors w filePath ''error.log'') =
           (case fst (scanRun file) of
              [] \<Rightarrow> False
            | (first, e) # _ \<Rightarrow> TrimSpace w first \<noteq> [])"
  using assms
  by (simp add: detectErrors_def split: prod.splits list.splits)

lemma scanTokens_too_long:
  "CHR 0x0A \<notin> set bytes \<Longrightarrow> MaxScanTokenSize \<le> length cur + length bytes \<Longrightarrow>
   scanTokens rerr cur bytes = ([], Some ErrTooLong)"
  by (induction bytes arbitrary: cur) auto

subsection \<open>Reading lines\<close>

lemma readLines_unbounded:
  "readLines 0 lineCount toks efinal lines = (lines @ map fst toks, efinal)"
  by (induction toks arbitrary: lineCount lines) auto

lemma readLines_bounded:
  "c \<le> m \<Longrightarrow> 0 < m \<Longrightarrow>
   readLines (int m) (int c) toks efinal lines =
     (lines @ take (m - c) (map fst toks),
      if length toks \<le> m - c then efinal else snd (toks ! (m - c)))"
proof (induction toks arbitrary: c lines)
  case Nil
  then show ?case by simp
next
  case (Cons tok rest)
  obtain t e where tok: "tok = (t, e)" by (cases tok)
  show ?case
  proof (cases "c < m")
    case True
    then have step: "readLines (int m) (int c) (tok # rest) efinal lines =
                     readLines (int m) (int (Suc c)) rest efinal (lines @ [t])"
      using tok Cons.prems by (simp add: add.commute)
    have "Suc c \<le> m" using True by simp
    from Cons.IH [OF this Cons.prems(2), of "lines @ [t]"]
    have "readLines (int m) (int (Suc c)) rest efinal (lines @ [t]) =
            ((lines @ [t]) @ take (m - Suc c) (map fst rest),
             if length rest \<le> m - Suc c then efinal else snd (rest ! (m - Suc c)))" .
    moreover have "m - c = Suc (m - Suc c)" using True by simp
    ultimately show ?thesis using step tok by simp
  next
    case False
    then have "c = m" using Cons.prems by simp
    then show ?thesis using tok Cons.prems by simp
  qed
qed

lemma GetLogContent_all:
  assumes "os_Open w filePath = Inr file" and "scanRun file = (toks, efinal)"
  shows "GetLogContent w filePath 0 = (map fst toks, efinal)"
  using assms by (simp add: GetLogContent_def readLines_unbounded)

lemma GetLogContent_1000:
  "GetLogContent w filePath 1000 =
     (case os_Open w filePath of
        Inl err \<Rightarrow> ([], Some err)
      | Inr file \<Rightarrow>
          (case scanRun file of (toks, efinal) \<Rightarrow>
             (take 1000 (map fst toks),
              if length toks \<le> 1000 then efinal else snd (toks ! 1000))))"
proof -
  have "\<And>toks efinal. readLines 1000 0 toks efinal [] =
          (take 1000 (map fst toks),
           if length toks \<le> 1000 then efinal else snd (toks ! 1000))"
    using readLines_bounded [of 0 1000 _ _ "[]"] by simp
  then show ?thesis by (simp add: GetLogContent_def split: sum.splits prod.splits)
qed

subsection \<open>The search loops\<close>

lemma searchLines_find:
  "searchLines w keyword content =
     find (\<lambda>line. Contains (ToLower w line) (ToLower w keyword)) content"
  by (induction content) auto

lemma readsCleanly_content:
  assumes "GetLogContent w path 1000 = (content, err)"
  shows "readsCleanly w path = (err = None)"
    and "err = None \<Longrightarrow> content = spec_firstLines w path"
  using assms
  by (auto simp: readsCleanly_def GetLogContent_1000 spec_firstLines_def spec_fileLines_def
      split: sum.splits prod.splits)

lemma searchEntries_spec:
  "searchEntries w keyword entries results =
     results @ concat (map (\<lambda>logEntry. if readsCleanly w (FilePath logEntry)
                                         then spec_fileMatch w keyword logEntry else [])
                           entries)"
proof (induction entries arbitrary: results)
  case Nil
  then show ?case by simp
next
  case (Cons logEntry rest)
  obtain content err where g: "GetLogContent w (FilePath logEntry) 1000 = (content, err)"
    by (cases "GetLogContent w (FilePath logEntry) 1000")
  show ?case
  proof (cases err)
    case None
    have "readsCleanly w (FilePath logEntry)"
      using readsCleanly_content(1) [OF g] None by simp
    moreover have "content = spec_firstLines w (FilePath logEntry)"
      using readsCleanly_content(2) [OF g] None by simp
    ultimately show ?thesis
      using g None
      by (simp add: Cons.IH spec_fileMatch_def searchLines_find split: option.splits)
  next
    case (Some e)
    have "\<not> readsCleanly w (FilePath logEntry)"
      using readsCleanly_content(1) [OF g] Some by simp
    then show ?thesis using g Some by (simp add: Cons.IH)
  qed
qed

lemma searchSummaries_spec:
  "searchSummaries w keyword summaries results =
     results @ concat (map (\<lambda>logEntry. if readsCleanly w (FilePath logEntry)
                                         then spec_fileMatch w keyword logEntry else [])
                           (concat (map Logs summaries)))"
  by (induction summaries arbitrary: results) (simp_all add: searchEntries_spec)

lemma SearchLogs_spec:
  "SearchLogs w s keyword =
     (case ScanLogsForDate w s (time_Today w) of
        Inl err \<Rightarrow> Inl err
      | Inr summaries \<Rightarrow>
          Inr (concat (map (\<lambda>logEntry. if readsCleanly w (FilePath logEntry)
                                        then spec_fileMatch w keyword logEntry else [])
                           (concat (map Logs summaries)))))"
  by (simp add: SearchLogs_def ScanTodaysLogs_def searchSummaries_spec split: sum.splits)

lemma concat_map_guarded:
  "list_all P xs \<Longrightarrow> concat (map (\<lambda>x. if P x then f x else []) xs) = concat (map f xs)"
  by (induction xs) auto

lemma SearchLogs_spec_search:
  assumes "ScanLogsForDate w s (time_Today w) = Inr summaries"
    and "list_all (\<lambda>logEntry. readsCleanly w (FilePath logEntry)) (concat (map Logs summaries))"
  shows "SearchLogs w s keyword = spec_search w s keyword (time_Today w)"
  unfolding SearchLogs_spec spec_search_def assms(1)
  using concat_map_guarded [OF assms(2), of "spec_fileMatch w keyword"] by simp

lemma isl_ScanLogsForDate:
  "isl (ScanLogsForDate w s date) = isl (os_ReadDir w (nfsRoot s))"
  by (simp add: ScanLogsForDate_def getSourceDirectories_def split: sum.splits)

subsection \<open>The scan of the small tree\<close>

lemmas demo_defs = demo_world_def demo_scanner_def demo_dirs_def demo_files_def
  demo_entry_def demo_job1_def demo_job2_def demo_job3_def demo_empty_def demo_etl_def
  demo_result_def

lemmas eval_defs = Join.simps Clean_def scanRun_def MaxScanTokenSize_def dropCR_def
  detectErrors_def TrimSpace_def asciiSpace_def RuneSelf_def less_eq_char_def
  scanLogFile_def determineWorkflowStatus_def
  scanWorkflow_def getSourceDirectories_def getWorkflowDirectories_def
  scanSourceForDate_def ScanLogsForDate_def summaryLess_def errorPatterns_def

lemma demo_scan:
  "ScanLogsForDate demo_world demo_scanner ''2025-01-10'' = Inr demo_result"
  by (simp add: demo_defs eval_defs)

lemma demo_scan_other_date:
  "ScanLogsForDate demo_world demo_scanner ''not-a-date'' = Inr []"
  by (simp add: demo_defs eval_defs)


lemma demo_today: "time_Today demo_world = ''2025-01-10''"
  by (simp add: demo_world_def)

lemma demo_open_job2:
  "os_Open demo_world ''/nfs/batchA/2025-01-10/job2/info.log''
     = Inr (''start\<newline>step FAILED here\<newline>'', None)"
  by (simp add: demo_defs)

lemma demo_run_job2:
  "scanRun (''start\<newline>step FAILED here\<newline>'', None)
     = ([(''start'', None), (''step FAILED here'', None)], None)"
  by (simp add: scanRun_def MaxScanTokenSize_def dropCR_def)

lemmas search_defs = spec_fileMatch_def spec_firstLines_def spec_fileLines_def
  readsCleanly_def GetLogContent_def
  scanRun_def MaxScanTokenSize_def dropCR_def ToLower_def RuneSelf_def lowerByte_def
  less_eq_char_def less_char_def char_of_def bit_Suc_0_iff


lemma demo_search_empty:
  "concat (map (\<lambda>logEntry. if readsCleanly demo_world (FilePath logEntry)
                            then spec_fileMatch demo_world [] logEntry else [])
               (concat (map Logs demo_result)))
     = map (\<lambda>(e, line). e\<lparr>Content := line\<rparr>)
         [(demo_entry ''batchA'' ''job1'' ''info.log'' False 11, ''start''),
          (demo_entry ''batchA'' ''job1'' ''run.log'' False 3, ''ok''),
          (demo_entry ''batchA'' ''job2'' ''info.log'' True 23, ''start''),
          (demo_entry ''batchA'' ''job3'' ''error.log'' True 10, ''disk full''),
          (demo_entry ''batchA'' ''job3'' ''run.log'' False 3, ''ok''),
          (demo_entry ''batchB'' ''etl'' ''info.log'' False 11, ''Hello World''),
          (demo_entry ''batchB'' ''etl'' ''error.log'' False 6, [])]"
  by (simp add: demo_defs search_defs)


subsection \<open>The other two environments\<close>




lemma long_line_run:
  "scanRun (replicate 65536 (CHR ''a''), None) = ([], Some ErrTooLong)"
  unfolding scanRun_def fst_conv snd_conv
  by (rule scanTokens_too_long) (simp_all add: MaxScanTokenSize_def)

section \<open>The claims\<close>

subsection \<open>Status derivation\<close>

text \<open>
  Claim C1. For every workflow summary that a scan returns, the status follows this order
  of precedence: Failed when some log entry of the summary signals an error; otherwise
  No Logs when the summary has no log entry; otherwise Completed when an entry for
  \<open>run.log\<close> is present; otherwise In Progress. In particular a summary with a run log
  and an error signal is Failed.
\<close>

theorem status_precedence:
  assumes "ScanLogsForDate w s date = Inr result" and "summary \<in> set result"
  shows "Status summary =
     (if (\<exists>log\<in>set (Logs summary). le_HasErrors log) then ''Failed''
      else if Logs summary = [] then ''No Logs''
      else if (\<exists>log\<in>set (Logs summary). LogType log = ''run.log'') then ''Completed''
      else ''In Progress'')"
proof -
  obtain source workflow where sw: "scanWorkflow w s source date workflow = Inr summary"
    using ScanLogsForDate_elems [OF assms] by blast
  have "Status summary = determineWorkflowStatus summary"
    using sw by (rule scanWorkflow_status)
  moreover have "HasErrors summary = (\<exists>log\<in>set (Logs summary). le_HasErrors log)"
    using sw by (rule scanWorkflow_flag)
  ultimately show ?thesis by (simp only: determineWorkflowStatus_cases)
qed

theorem status_precedence_witness:
  "ScanLogsForDate demo_world demo_scanner ''2025-01-10'' = Inr demo_result
   \<and> demo_job3 \<in> set demo_result
   \<and> (\<exists>log\<in>set (Logs demo_job3). le_HasErrors log)
   \<and> (\<exists>log\<in>set (Logs demo_job3). LogType log = ''run.log'')
   \<and> Status demo_job3 = ''Failed''"
proof -
  have mem: "demo_job3 \<in> set demo_result" by (simp add: demo_result_def)
  show ?thesis
    using status_precedence [OF demo_scan mem] demo_scan mem
    by (simp add: demo_job3_def demo_entry_def)
qed

text \<open>
  Claim C3. For every workflow summary that a scan returns, the flag \<open>HasErrors\<close> is
  the disjunction of the flags of its log entries.
\<close>

theorem has_errors_is_disjunction:
  assumes "ScanLogsForDate w s date = Inr result" and "summary \<in> set result"
  shows "HasErrors summary = (\<exists>log\<in>set (Logs summary). le_HasErrors log)"
proof -
  obtain source workflow where "scanWorkflow w s source date workflow = Inr summary"
    using ScanLogsForDate_elems [OF assms] by blast
  then show ?thesis by (rule scanWorkflow_flag)
qed

theorem has_errors_is_disjunction_witness:
  "ScanLogsForDate demo_world demo_scanner ''2025-01-10'' = Inr demo_result
   \<and> demo_job2 \<in> set demo_result
   \<and> HasErrors demo_job2
   \<and> (\<exists>log\<in>set (Logs demo_job2). le_HasErrors log)"
proof -
  have mem: "demo_job2 \<in> set demo_result" by (simp add: demo_result_def)
  have flag: "HasErrors demo_job2" by (simp add: demo_job2_def)
  show ?thesis
    using has_errors_is_disjunction [OF demo_scan mem] demo_scan mem flag by simp
qed

text \<open>
  Claim C10. Every workflow summary that a scan returns has one of the four statuses
  Failed, No Logs, Completed and In Progress; the initial value Unknown never remains.
\<close>

theorem status_never_unknown:
  assumes "ScanLogsForDate w s date = Inr result" and "summary \<in> set result"
  shows "Status summary \<in> {''Failed'', ''No Logs'', ''Completed'', ''In Progress''}
         \<and> Status summary \<noteq> ''Unknown''"
proof -
  obtain source workflow where "scanWorkflow w s source date workflow = Inr summary"
    using ScanLogsForDate_elems [OF assms] by blast
  then have "Status summary = determineWorkflowStatus summary"
    by (rule scanWorkflow_status)
  then have "Status summary \<in> {''Failed'', ''No Logs'', ''Completed'', ''In Progress''}"
    using determineWorkflowStatus_range [of summary] by simp
  then show ?thesis by auto
qed

theorem status_never_unknown_witness:
  "ScanLogsForDate demo_world demo_scanner ''2025-01-10'' = Inr demo_result
   \<and> demo_empty \<in> set demo_result
   \<and> Status demo_empty \<in> {''Failed'', ''No Logs'', ''Completed'', ''In Progress''}
   \<and> Status demo_empty \<noteq> ''Unknown''"
proof -
  have mem: "demo_empty \<in> set demo_result" by (simp add: demo_result_def)
  show ?thesis
    using status_never_unknown [OF demo_scan mem] demo_scan mem by simp
qed

subsection \<open>Ordering of the result\<close>

text \<open>
  Claim C4. In the result of a scan, every element and its successor are in order: the
  source of the first is smaller, or the sources are equal and the workflow of the first
  is smaller or equal, in the bytewise order of strings. The order comes from the sort at
  the end of the scan, whatever order the directory listings have.
\<close>

theorem scan_result_ordered:
  assumes "ScanLogsForDate w s date = Inr result" and "Suc i < length result"
  shows "Source (result ! i) < Source (result ! Suc i)
         \<or> (Source (result ! i) = Source (result ! Suc i)
            \<and> Workflow (result ! i) \<le> Workflow (result ! Suc i))"
proof -
  have "sorted_wrt (\<lambda>a b. \<not> summaryLess b a) result"
    using assms(1) by (rule sorted_scan)
  then have "\<not> summaryLess (result ! Suc i) (result ! i)"
    using assms(2) sorted_wrt_nth_less [of _ result i "Suc i"] by blast
  then show ?thesis by (simp add: not_summaryLess_iff)
qed

theorem scan_result_ordered_witness:
  "ScanLogsForDate demo_world demo_scanner ''2025-01-10'' = Inr demo_result
   \<and> Suc 2 < length demo_result
   \<and> Source (demo_result ! 2) = ''batchA''
   \<and> Source (demo_result ! Suc 2) = ''batchB''
   \<and> Source (demo_result ! 2) < Source (demo_result ! Suc 2)"
proof -
  have len: "Suc 2 < length demo_result" by (simp add: demo_result_def)
  have a: "Source (demo_result ! 2) = ''batchA''"
    by (simp add: demo_result_def demo_job3_def)
  have b: "Source (demo_result ! Suc 2) = ''batchB''"
    by (simp add: demo_result_def demo_empty_def)
  have "Workflow (demo_result ! 2) \<noteq> Workflow (demo_result ! Suc 2)"
    by (simp add: demo_result_def demo_job3_def demo_empty_def)
  then show ?thesis
    using scan_result_ordered [OF demo_scan len] demo_scan len a b by simp
qed

subsection \<open>Failures of single sources\<close>

text \<open>
  Claim C7. When the directory of the requested date does not exist under a source, the
  scan of that source returns the empty list and no error.
\<close>

theorem missing_date_directory_is_empty:
  assumes "os_Stat w (Join [nfsRoot s, source, date]) = Inl err" and "IsNotExist err"
  shows "scanSourceForDate w s source date = Inr []"
  using assms by (simp add: scanSourceForDate_def Let_def)

theorem missing_date_directory_is_empty_witness:
  "os_Stat demo_world (Join [nfsRoot demo_scanner, ''idle'', ''2025-01-10'']) = Inl ErrNotExist
   \<and> IsNotExist ErrNotExist
   \<and> scanSourceForDate demo_world demo_scanner ''idle'' ''2025-01-10'' = Inr []"
proof -
  have st: "os_Stat demo_world (Join [nfsRoot demo_scanner, ''idle'', ''2025-01-10''])
            = Inl ErrNotExist"
    by (simp add: demo_defs Join.simps Clean_def)
  have ne: "IsNotExist ErrNotExist" by simp
  show ?thesis
    using missing_date_directory_is_empty [OF st ne] st by simp
qed

text \<open>
  Claim C5. The scan of a date fails exactly when the root directory cannot be listed.
  When the root can be listed the scan returns a result, a source whose workflow
  directories cannot be listed contributes no summary to it, and every summary of every
  other source is in it.
\<close>

theorem scan_isolates_failing_source:
  "(isl (ScanLogsForDate w s date) = isl (os_ReadDir w (nfsRoot s)))
   \<and> (\<forall>sources. getSourceDirectories w s = Inr sources \<longrightarrow>
        (\<exists>result. ScanLogsForDate w s date = Inr result
           \<and> (\<forall>source\<in>set sources.
                 case scanSourceForDate w s source date of
                   Inl err \<Rightarrow> \<forall>x\<in>set result. Source x \<noteq> source
                 | Inr xs \<Rightarrow> set xs \<subseteq> set result)))"
proof (intro conjI allI impI)
  show "isl (ScanLogsForDate w s date) = isl (os_ReadDir w (nfsRoot s))"
    by (simp add: ScanLogsForDate_def getSourceDirectories_def split: sum.splits)
next
  fix sources
  assume src: "getSourceDirectories w s = Inr sources"
  from set_ScanLogsForDate [OF src, of date]
  obtain result where r: "ScanLogsForDate w s date = Inr result"
    and sr: "set result = {x. \<exists>source\<in>set sources. \<exists>xs.
                scanSourceForDate w s source date = Inr xs \<and> x \<in> set xs}"
    by blast
  have "\<forall>source\<in>set sources.
          case scanSourceForDate w s source date of
            Inl err \<Rightarrow> \<forall>x\<in>set result. Source x \<noteq> source
          | Inr xs \<Rightarrow> set xs \<subseteq> set result"
  proof
    fix source
    assume mem: "source \<in> set sources"
    show "case scanSourceForDate w s source date of
            Inl err \<Rightarrow> \<forall>x\<in>set result. Source x \<noteq> source
          | Inr xs \<Rightarrow> set xs \<subseteq> set result"
    proof (cases "scanSourceForDate w s source date")
      case (Inl err)
      have "\<forall>x\<in>set result. Source x \<noteq> source"
      proof
        fix x
        assume "x \<in> set result"
        then obtain source' xs where
          ok: "scanSourceForDate w s source' date = Inr xs" and x: "x \<in> set xs"
          using sr by auto
        have "Source x = source'" using ok x by (rule scanSourceForDate_Source)
        moreover have "source' \<noteq> source" using ok Inl by auto
        ultimately show "Source x \<noteq> source" by simp
      qed
      then show ?thesis using Inl by simp
    next
      case (Inr xs)
      then have "set xs \<subseteq> set result" using sr mem by auto
      then show ?thesis using Inr by simp
    qed
  qed
  then show "\<exists>result. ScanLogsForDate w s date = Inr result
           \<and> (\<forall>source\<in>set sources.
                 case scanSourceForDate w s source date of
                   Inl err \<Rightarrow> \<forall>x\<in>set result. Source x \<noteq> source
                 | Inr xs \<Rightarrow> set xs \<subseteq> set result)"
    using r by blast
qed

theorem scan_isolates_failing_source_witness:
  "\<not> isl (os_ReadDir demo_world (nfsRoot demo_scanner))
   \<and> \<not> isl (ScanLogsForDate demo_world demo_scanner ''2025-01-10'')
   \<and> getSourceDirectories demo_world demo_scanner
       = Inr [''batchB'', ''batchA'', ''broken'', ''idle'']
   \<and> scanSourceForDate demo_world demo_scanner ''broken'' ''2025-01-10'' = Inl ErrPermission
   \<and> ''broken'' \<notin> set (map Source demo_result)"
proof -
  have root: "\<not> isl (os_ReadDir demo_world (nfsRoot demo_scanner))"
    by (simp add: demo_defs)
  have srcs: "getSourceDirectories demo_world demo_scanner
              = Inr [''batchB'', ''batchA'', ''broken'', ''idle'']"
    by (simp add: demo_defs getSourceDirectories_def)
  have broken: "scanSourceForDate demo_world demo_scanner ''broken'' ''2025-01-10''
                = Inl ErrPermission"
    by (simp add: demo_defs scanSourceForDate_def getWorkflowDirectories_def
        Join.simps Clean_def)
  note inst = scan_isolates_failing_source [of demo_world demo_scanner "''2025-01-10''"]
  from inst root have ok: "\<not> isl (ScanLogsForDate demo_world demo_scanner ''2025-01-10'')"
    by simp
  from inst srcs obtain result where
    r: "ScanLogsForDate demo_world demo_scanner ''2025-01-10'' = Inr result" and
    all: "\<forall>source\<in>set [''batchB'', ''batchA'', ''broken'', ''idle''].
            case scanSourceForDate demo_world demo_scanner source ''2025-01-10'' of
              Inl err \<Rightarrow> \<forall>x\<in>set result. Source x \<noteq> source
            | Inr xs \<Rightarrow> set xs \<subseteq> set result"
    by blast
  have res: "result = demo_result" using r demo_scan by simp
  have "case scanSourceForDate demo_world demo_scanner ''broken'' ''2025-01-10'' of
          Inl err \<Rightarrow> \<forall>x\<in>set result. Source x \<noteq> ''broken''
        | Inr xs \<Rightarrow> set xs \<subseteq> set result"
    using all by simp
  then have "\<forall>x\<in>set demo_result. Source x \<noteq> ''broken''"
    using broken res by simp
  then have "''broken'' \<notin> set (map Source demo_result)" by auto
  then show ?thesis using root ok srcs broken by blast
qed

subsection \<open>Reading the end of a file\<close>

text \<open>
  Claim C9, in the form that holds. For a file that is opened and read to its end without
  an error, and a number \<open>n\<close> of lines that is not negative, \<open>GetLogTail\<close> returns
  the last \<open>n\<close> lines of the file in the order of the file: the result is a suffix of
  the list of all lines, of length \<open>n\<close> or, when the file has fewer lines, of the length
  of the file; with at most \<open>n\<close> lines in the file the result is all of them.
\<close>

theorem GetLogTail_last_lines:
  assumes "os_Open w filePath = Inr file" and "scanRun file = (toks, None)" and "0 \<le> n"
  shows "\<exists>pre tl. GetLogTail w filePath n = Inr tl
           \<and> map fst toks = pre @ tl
           \<and> length tl = min (nat n) (length toks)
           \<and> (int (length toks) \<le> n \<longrightarrow> tl = map fst toks)"
proof -
  let ?all = "map fst toks"
  have content: "GetLogContent w filePath 0 = (?all, None)"
    using assms(1,2) by (rule GetLogContent_all)
  show ?thesis
  proof (cases "int (length toks) > n")
    case True
    let ?start = "length toks - nat n"
    have "GetLogTail w filePath n = Inr (drop ?start ?all)"
      using content True assms(3) by (simp add: GetLogTail_def Let_def nat_diff_distrib)
    moreover have "?all = take ?start ?all @ drop ?start ?all" by simp
    moreover have "length (drop ?start ?all) = min (nat n) (length toks)"
      using True assms(3) by simp
    ultimately show ?thesis using True by fastforce
  next
    case False
    have "GetLogTail w filePath n = Inr ?all"
      using content False by (simp add: GetLogTail_def Let_def)
    moreover have "?all = [] @ ?all" by simp
    moreover have "length ?all = min (nat n) (length toks)" using False by simp
    ultimately show ?thesis by blast
  qed
qed

theorem GetLogTail_last_lines_witness:
  "os_Open demo_world ''/nfs/batchA/2025-01-10/job2/info.log''
     = Inr (''start\<newline>step FAILED here\<newline>'', None)
   \<and> scanRun (''start\<newline>step FAILED here\<newline>'', None)
     = ([(''start'', None), (''step FAILED here'', None)], None)
   \<and> (0::int) \<le> 5
   \<and> GetLogTail demo_world ''/nfs/batchA/2025-01-10/job2/info.log'' 5
     = Inr [''start'', ''step FAILED here'']"
proof -
  have n: "(0::int) \<le> 5" by simp
  from GetLogTail_last_lines [OF demo_open_job2 demo_run_job2 n]
  obtain pre tl where
    "GetLogTail demo_world ''/nfs/batchA/2025-01-10/job2/info.log'' 5 = Inr tl"
    and "int (length [(''start'', None :: error option), (''step FAILED here'', None)]) \<le> 5
         \<longrightarrow> tl = map fst [(''start'', None :: error option), (''step FAILED here'', None)]"
    by blast
  then have "GetLogTail demo_world ''/nfs/batchA/2025-01-10/job2/info.log'' 5
             = Inr [''start'', ''step FAILED here'']"
    by simp
  then show ?thesis using demo_open_job2 demo_run_job2 n by blast
qed

text \<open>
  Outside these bounds no lines are returned: for \<open>n = -1\<close> the slice expression
  \<open>allLines[start:]\<close> is out of range, and a file holding a line of 65536 bytes is not
  read at all.
\<close>

theorem GetLogTail_counterexample:
  "GetLogTail demo_world ''/nfs/batchA/2025-01-10/job2/info.log'' (- 1) = Inl PanicSliceBounds
   \<and> GetLogTail long_line_world ''/nfs/batchA/2025-01-10/job2/info.log'' 1 = Inl ErrTooLong"
proof -
  have "GetLogContent demo_world ''/nfs/batchA/2025-01-10/job2/info.log'' 0
          = ([''start'', ''step FAILED here''], None)"
    using GetLogContent_all [OF demo_open_job2 demo_run_job2] by simp
  then have neg: "GetLogTail demo_world ''/nfs/batchA/2025-01-10/job2/info.log'' (- 1)
          = Inl PanicSliceBounds"
    by (simp add: GetLogTail_def)
  have "os_Open long_line_world ''/nfs/batchA/2025-01-10/job2/info.log''
          = Inr (replicate 65536 (CHR ''a''), None)"
    by (simp add: long_line_world_def)
  from GetLogContent_all [OF this long_line_run]
  have "GetLogTail long_line_world ''/nfs/batchA/2025-01-10/job2/info.log'' 1 = Inl ErrTooLong"
    by (simp add: GetLogTail_def)
  then show ?thesis using neg by simp
qed

subsection \<open>Searching\<close>




subsection \<open>Input that is not validated\<close>

text \<open>
  Claim C6, in the form that holds: neither the date nor the keyword is examined before
  the work on the file system starts. For every date string the scan fails exactly when
  the root directory cannot be listed, for every keyword the search fails exactly when
  the root directory cannot be listed, and the empty keyword matches the first line of
  whatever lines it is given.
\<close>

theorem inputs_not_validated:
  "isl (ScanLogsForDate w s date) = isl (os_ReadDir w (nfsRoot s))
   \<and> isl (SearchLogs w s keyword) = isl (os_ReadDir w (nfsRoot s))
   \<and> searchLines w [] (line # rest) = Some line"
proof -
  have "isl (SearchLogs w s keyword) = isl (ScanLogsForDate w s (time_Today w))"
    by (simp add: SearchLogs_def ScanTodaysLogs_def split: sum.splits)
  then show ?thesis by (simp add: isl_ScanLogsForDate)
qed

theorem inputs_not_validated_witness:
  "\<not> isl (ScanLogsForDate demo_world demo_scanner ''not-a-date'')
   \<and> \<not> isl (SearchLogs demo_world demo_scanner [])
   \<and> searchLines demo_world [] [''start'', ''done''] = Some ''start''"
  using inputs_not_validated [of demo_world demo_scanner "''not-a-date''" "[]"
      "''start''" "[''done'']"]
  by (simp add: demo_defs)

text \<open>
  On the small tree the scan of the date string \<open>not-a-date\<close> returns the empty result
  without an error, and the search for the empty keyword returns the first line of every
  log file.
\<close>

theorem input_rejected_counterexample:
  "ScanLogsForDate demo_world demo_scanner ''not-a-date'' = Inr []
   \<and> \<not> isl (SearchLogs demo_world demo_scanner [])
   \<and> map Content (projr (SearchLogs demo_world demo_scanner []))
       = [''start'', ''ok'', ''start'', ''disk full'', ''ok'', ''Hello World'', []]"
  by (simp add: demo_scan_other_date SearchLogs_spec demo_today demo_scan demo_search_empty)

subsection \<open>The error log\<close>

text \<open>
  Claim C2. An \<open>error.log\<close> should signal an error exactly when it holds something
  other than white space. \<open>detectErrors\<close> looks at the first line only (lemma
  \<open>detectErrors_error_log\<close>): on the small tree the error log of \<open>etl\<close>, a blank
  line followed by the line \<open>boom\<close>, signals no error.
\<close>

theorem detectErrors_blank_first_line:
  "os_Open demo_world ''/nfs/batchB/2025-01-10/etl/error.log''
     = Inr (''\<newline>boom\<newline>'', None)
   \<and> TrimSpace demo_world ''\<newline>boom\<newline>'' = ''boom''
   \<and> detectErrors demo_world ''/nfs/batchB/2025-01-10/etl/error.log'' ''error.log''
     = (False, None)"
  by (simp add: demo_defs detectErrors_def scanRun_def MaxScanTokenSize_def dropCR_def
      TrimSpace_def asciiSpace_def RuneSelf_def less_eq_char_def)

end
